theory Spec2Isabelle
  imports Complex_Main "HOL-Library.AList"
begin

section \<open>Data model (internal/models)\<close>

text \<open>
  Conventions of the embedding.
  \<^item> A \<open>time.Time\<close> is the instant it denotes, in nanoseconds, as an \<open>int\<close>;
    \<open>Before\<close> and \<open>After\<close> are the strict orders on instants. A \<open>*time.Time\<close>
    is an \<open>int option\<close> (\<open>None\<close> for \<open>nil\<close>).
  \<^item> A \<open>float64\<close> is a \<open>real\<close>: the arithmetic of the discount is exact. Rounding to
    \<open>float64\<close> and the order in which the collector receives the workers' results are not
    part of the model, so the model decides which items contribute and when a discount is
    zero, not the \<open>float64\<close> value of a discount that is rounded.
  \<^item> A Go \<open>int\<close> is an \<open>int\<close>.
  \<^item> A Go \<open>error\<close> is a value of \<open>error\<close>; \<open>nil\<close> is \<open>None\<close> of \<open>error option\<close>.
\<close>

type_synonym time = int

record Coupon =
  ID :: int
  CouponCode :: string
  ExpiryDate :: time
  UsageType :: string
  MinOrderValue :: real
  ValidFrom :: "time option"
  ValidTo :: "time option"
  DiscountType :: string
  DiscountValue :: real
  MaxUsagePerUser :: int
  TargetType :: string
  Terms :: string
  CreatedAt :: time
  UpdatedAt :: time

record CouponMeta = Coupon +
  ApplicableItems :: "string list"
  ApplicableCategories :: "string list"

record CartItem =
  ID :: string
  Category :: string
  Price :: real
  Qty :: int

record ValidationRequest =
  UserID :: string
  CouponCode :: string
  CartItems :: "CartItem list"
  OrderTotal :: real

record ValidationResponse =
  IsValid :: bool
  Discount :: real
  Message :: string

text \<open>
  Errors: \<open>IOError\<close> is an error of the database driver, \<open>ContextDone\<close> is
  \<open>ctx.Err()\<close>, \<open>TxDone\<close> is \<open>sql.ErrTxDone\<close>, and \<open>Wrapped p err\<close> is
  \<open>fmt.Errorf("p: %w", err)\<close>.
\<close>

datatype error =
    IOError
  | ContextDone
  | TxDone
  | Wrapped string error

text \<open>The transaction control commands a call sends to the database server.\<close>

datatype command = BEGIN | COMMIT | ROLLBACK

section \<open>Environment and state\<close>

text \<open>
  Table \<open>coupon_usage\<close>: one row per \<open>(coupon_id, user_id)\<close> (the UNIQUE constraint),
  holding \<open>usage_count\<close> and \<open>last_used\<close>.
\<close>

record usage_row =
  usage_count :: int
  last_used :: time

type_synonym coupon_usage = "int \<times> string \<rightharpoonup> usage_row"

text \<open>
  What one call of \<open>ValidateCoupon\<close> reads from outside: the coupon repository, the clock,
  the context, and whether each database statement fails (\<open>Some err\<close>) or not.
  \<^item> \<open>couponRepo\<close>: \<open>GetCouponMeta(ctx, code)\<close>; \<open>Inr None\<close> is \<open>(nil, nil)\<close>.
  \<^item> \<open>now\<close>: \<open>time.Now().UTC()\<close>.
  \<^item> \<open>ctxDone\<close>: \<open>ctx.Done()\<close> is closed when the item checks are awaited (the caller
    cancelled or the 8 second deadline passed).
  \<^item> \<open>collectFirst\<close>: with both channels ready, the final \<open>select\<close> takes \<open>collectDone\<close>.
  \<^item> \<open>beginErr\<close>, \<open>selectErr\<close>, \<open>insertErr\<close>, \<open>updateErr\<close>, \<open>commitErr\<close>: the error of
    \<open>BeginTx\<close>, of the \<open>SELECT ... FOR UPDATE\<close> (other than \<open>sql.ErrNoRows\<close>), of the
    \<open>INSERT\<close>, of the \<open>UPDATE\<close> and of \<open>tx.Commit\<close>.
  \<^item> \<open>dbNow\<close>: \<open>NOW()\<close> of the INSERT; \<open>updateNow\<close>: \<open>time.Now()\<close> of \<open>IncrementUsage\<close>.
\<close>

record env =
  couponRepo :: "string \<Rightarrow> error + CouponMeta option"
  now :: time
  ctxDone :: bool
  collectFirst :: bool
  beginErr :: "error option"
  selectErr :: "error option"
  insertErr :: "error option"
  updateErr :: "error option"
  commitErr :: "error option"
  dbNow :: time
  updateNow :: time

text \<open>
  The service with its database:
  \<^item> \<open>cache\<close>: the in-memory cache of coupon metadata;
  \<^item> \<open>db\<close>: the committed content of table \<open>coupon_usage\<close>;
  \<^item> \<open>openTx\<close>: the view of the transaction that is open on the service's connection (the
    committed rows and the rows the transaction has written), \<open>None\<close> when no
    transaction is open; an open transaction holds its row locks;
  \<^item> \<open>sent\<close>: the transaction control commands sent to the server for the transactions
    the service has opened, oldest first.
\<close>

record CouponService =
  cache :: "string \<rightharpoonup> CouponMeta"
  db :: coupon_usage
  openTx :: "coupon_usage option"
  sent :: "command list"

section \<open>Usage repository (internal/repository/usage_repo.go)\<close>

text \<open>
  Transactions (\<open>database/sql\<close>). The handle \<open>tx\<close> of the code is the service with its
  open transaction. Rows written in a transaction are in its view only.
  \<^item> \<open>BeginTx\<close> on a context that is done returns \<open>ctx.Err()\<close>; otherwise, unless it
    fails, a transaction is open (\<open>BEGIN\<close>) and its view starts as the committed table.
  \<^item> \<open>Commit\<close> on a context that is done returns \<open>ctx.Err()\<close> before anything is sent and
    the transaction stays open. Otherwise it marks the transaction done and sends
    \<open>COMMIT\<close>: on success the view becomes the committed table; on failure the error is
    returned. What the server has done with a \<open>COMMIT\<close> that it reports as failed is
    not in the code; the model takes the view as dropped.
  \<^item> \<open>Rollback\<close> on a transaction that is done returns \<open>sql.ErrTxDone\<close> and sends nothing;
    otherwise it sends \<open>ROLLBACK\<close> and the view is dropped.
\<close>

definition BeginTx :: "env \<Rightarrow> CouponService \<Rightarrow> error + CouponService" where
  "BeginTx e s =
     (if ctxDone e then Inl ContextDone
      else case beginErr e of
             Some err \<Rightarrow> Inl err
           | None \<Rightarrow> Inr (s\<lparr>openTx := Some (db s), sent := sent s @ [BEGIN]\<rparr>))"

definition Commit :: "env \<Rightarrow> CouponService \<Rightarrow> error option \<times> CouponService" where
  "Commit e tx =
     (case openTx tx of
        None \<Rightarrow> (Some TxDone, tx)
      | Some view \<Rightarrow>
          (case commitErr e of
             None \<Rightarrow> (None, tx\<lparr>db := view, openTx := None, sent := sent tx @ [COMMIT]\<rparr>)
           | Some err \<Rightarrow>
               if err = ContextDone then (Some err, tx)
               else (Some err, tx\<lparr>openTx := None, sent := sent tx @ [COMMIT]\<rparr>)))"

definition Rollback :: "CouponService \<Rightarrow> CouponService" where
  "Rollback tx =
     (case openTx tx of
        None \<Rightarrow> tx
      | Some view \<Rightarrow> tx\<lparr>openTx := None, sent := sent tx @ [ROLLBACK]\<rparr>)"

text \<open>
  \<open>GetAndLockUsage\<close>: the \<open>SELECT ... FOR UPDATE\<close> of the pair's row and, when there is no
  row, the \<open>INSERT\<close> of a row with count 0, both in the transaction. A statement that
  fails changes nothing.
\<close>

definition GetAndLockUsage ::
    "env \<Rightarrow> CouponService \<Rightarrow> int \<Rightarrow> string \<Rightarrow> error + (int \<times> CouponService)" where
  "GetAndLockUsage e tx couponID userID =
     (case openTx tx of
        None \<Rightarrow> Inl TxDone
      | Some view \<Rightarrow>
          (case selectErr e of
             Some err \<Rightarrow> Inl err
           | None \<Rightarrow>
               (case view (couponID, userID) of
                  Some row \<Rightarrow> Inr (usage_count row, tx)
                | None \<Rightarrow>
                    (case insertErr e of
                       Some err \<Rightarrow> Inl err
                     | None \<Rightarrow>
                         Inr (0, tx\<lparr>openTx := Some (view((couponID, userID) \<mapsto>
                                   \<lparr>usage_count = 0, last_used = dbNow e\<rparr>))\<rparr>)))))"

text \<open>\<open>IncrementUsage\<close>: the \<open>UPDATE\<close> of the pair's row, in the transaction.\<close>

definition IncrementUsage ::
    "env \<Rightarrow> CouponService \<Rightarrow> int \<Rightarrow> string \<Rightarrow> error + CouponService" where
  "IncrementUsage e tx couponID userID =
     (case openTx tx of
        None \<Rightarrow> Inl TxDone
      | Some view \<Rightarrow>
          (case updateErr e of
             Some err \<Rightarrow> Inl err
           | None \<Rightarrow>
               Inr (case view (couponID, userID) of
                      None \<Rightarrow> tx
                    | Some row \<Rightarrow>
                        tx\<lparr>openTx := Some (view((couponID, userID) \<mapsto>
                              row\<lparr>usage_count := usage_count row + 1,
                                  last_used := updateNow e\<rparr>))\<rparr>)))"

section \<open>The service: ValidateCoupon\<close>

text \<open>\<open>ValidateResponse{IsValid: false, Message: msg}\<close>: the discount is the zero value.\<close>

definition reject :: "string \<Rightarrow> ValidationResponse" where
  "reject msg = \<lparr>IsValid = False, Discount = 0, Message = msg\<rparr>"

subsection \<open>1) Load coupon meta (cache first)\<close>

definition loadCouponMeta ::
    "env \<Rightarrow> CouponService \<Rightarrow> ValidationRequest
       \<Rightarrow> (ValidationResponse \<times> error option) + (CouponMeta \<times> CouponService)" where
  "loadCouponMeta e s req =
     (case cache s (ValidationRequest.CouponCode req) of
        Some cm \<Rightarrow> Inr (cm, s)
      | None \<Rightarrow>
          (case couponRepo e (ValidationRequest.CouponCode req) of
             Inl err \<Rightarrow> Inl (reject ''internal_error'', Some err)
           | Inr None \<Rightarrow> Inl (reject ''coupon_not_found'', None)
           | Inr (Some m) \<Rightarrow>
               Inr (m, s\<lparr>cache := (cache s)(ValidationRequest.CouponCode req \<mapsto> m)\<rparr>)))"

subsection \<open>2) Basic validations\<close>

text \<open>The response of the first check that fails, \<open>None\<close> when all three pass.\<close>

definition basicValidations ::
    "CouponMeta \<Rightarrow> time \<Rightarrow> ValidationRequest \<Rightarrow> ValidationResponse option" where
  "basicValidations couponMeta t req =
     (if ExpiryDate couponMeta < t then Some (reject ''coupon_expired'')
      else if MinOrderValue couponMeta > OrderTotal req
        then Some (reject ''min_order_value_not_met'')
      else
        (case (ValidFrom couponMeta, ValidTo couponMeta) of
           (Some validFrom, Some validTo) \<Rightarrow>
             if t < validFrom \<or> t > validTo then Some (reject ''not_in_valid_window'')
             else None
         | _ \<Rightarrow> None))"

subsection \<open>3) Item applicability checks\<close>

text \<open>
  A \<open>map[string]bool\<close> is an association list with one pair per key: \<open>m[k] = true\<close> is
  \<open>AList.update k True m\<close>, \<open>len(m)\<close> is the length, and \<open>m[k]\<close> of a missing key is the
  zero value \<open>false\<close>.
\<close>

definition makeMap :: "string list \<Rightarrow> (string \<times> bool) list" where
  "makeMap ids = fold (\<lambda>id m. AList.update id True m) ids []"

definition index :: "(string \<times> bool) list \<Rightarrow> string \<Rightarrow> bool" where
  "index m k = (case map_of m k of Some b \<Rightarrow> b | None \<Rightarrow> False)"

definition applies :: "CouponMeta \<Rightarrow> CartItem \<Rightarrow> bool" where
  "applies couponMeta it =
     (let applicableMap = makeMap (ApplicableItems couponMeta);
          categoryMap = makeMap (ApplicableCategories couponMeta);
          a = False;
          a = (if length applicableMap = 0 \<and> length categoryMap = 0 then True else a);
          a = (if index applicableMap (CartItem.ID it) then True else a);
          a = (if index categoryMap (Category it) then True else a)
      in a)"

text \<open>What one worker sends on \<open>outCh\<close> for one item.\<close>

definition itemDiscount :: "CouponMeta \<Rightarrow> CartItem \<Rightarrow> real" where
  "itemDiscount couponMeta it =
     (if applies couponMeta it \<and> TargetType couponMeta = ''inventory'' then
        (if DiscountType couponMeta = ''percentage''
         then real_of_int (Qty it) * Price it * (DiscountValue couponMeta / 100)
         else 0)
      else 0)"

text \<open>The number of workers spawned for a cart.\<close>

definition workerCount :: "CartItem list \<Rightarrow> int" where
  "workerCount cartItems =
     (let wc = 4 in
      if int (length cartItems) > 0 \<and> int (length cartItems) < wc then
        (let wc = int (length cartItems) in if wc = 0 then 1 else wc)
      else wc)"

text \<open>
  The collector, when the context is not done: every item is sent to a worker once and
  every result is received once and added to the total.
\<close>

definition totalItemsDiscount :: "CouponMeta \<Rightarrow> CartItem list \<Rightarrow> real" where
  "totalItemsDiscount couponMeta cartItems =
     fold (\<lambda>it total. total + itemDiscount couponMeta it) cartItems 0"

text \<open>The final discount chosen from the item total, the charges and the flat amount.\<close>

definition totalDiscount :: "CouponMeta \<Rightarrow> ValidationRequest \<Rightarrow> real \<Rightarrow> real" where
  "totalDiscount couponMeta req itemsTotal =
     (let chargesDiscount =
            (if TargetType couponMeta = ''charges'' then
               (if DiscountType couponMeta = ''percentage''
                then OrderTotal req * (DiscountValue couponMeta / 100)
                else DiscountValue couponMeta)
             else 0);
          flatInventoryDiscount =
            (if TargetType couponMeta = ''inventory'' \<and> DiscountType couponMeta = ''flat''
             then DiscountValue couponMeta else 0)
      in if TargetType couponMeta = ''charges'' then chargesDiscount
         else if TargetType couponMeta = ''inventory'' then
           (if DiscountType couponMeta = ''flat'' then flatInventoryDiscount else itemsTotal)
         else itemsTotal)"

subsection \<open>4) Usage increment in a transaction\<close>

text \<open>
  The statements between \<open>BeginTx\<close> and the final response: the result, the flag
  \<open>committed\<close> and the service (with its transaction) after them.
\<close>

definition usageTx ::
    "env \<Rightarrow> CouponMeta \<Rightarrow> ValidationRequest \<Rightarrow> real \<Rightarrow> CouponService
       \<Rightarrow> (ValidationResponse \<times> error option) \<times> bool \<times> CouponService" where
  "usageTx e couponMeta req discount tx =
     (case GetAndLockUsage e tx (Coupon.ID couponMeta) (UserID req) of
        Inl err \<Rightarrow> ((reject ''internal_error'', Some (Wrapped ''get lock'' err)), False, tx)
      | Inr (usageCount, tx1) \<Rightarrow>
          if UsageType couponMeta = ''one_time'' \<and> usageCount \<ge> 1
            then ((reject ''coupon_already_used'', None), False, tx1)
          else if MaxUsagePerUser couponMeta > 0 \<and> usageCount \<ge> MaxUsagePerUser couponMeta
            then ((reject ''usage_limit_reached'', None), False, tx1)
          else
            (case IncrementUsage e tx1 (Coupon.ID couponMeta) (UserID req) of
               Inl err \<Rightarrow>
                 ((reject ''internal_error'', Some (Wrapped ''increment usage'' err)), False, tx1)
             | Inr tx2 \<Rightarrow>
                 (case Commit e tx2 of
                    (Some err, tx3) \<Rightarrow>
                      ((reject ''internal_error'', Some (Wrapped ''tx commit'' err)), False, tx3)
                  | (None, tx3) \<Rightarrow>
                      ((\<lparr>IsValid = True, Discount = discount, Message = ''coupon_applied''\<rparr>,
                        None), True, tx3))))"

text \<open>
  \<open>BeginTx\<close>, the statements, and the deferred function: \<open>tx.Rollback()\<close> when
  \<open>committed\<close> is false.
\<close>

definition consumeUsage ::
    "env \<Rightarrow> CouponMeta \<Rightarrow> ValidationRequest \<Rightarrow> real \<Rightarrow> CouponService
       \<Rightarrow> (ValidationResponse \<times> error option) \<times> CouponService" where
  "consumeUsage e couponMeta req discount s =
     (case BeginTx e s of
        Inl err \<Rightarrow> ((reject ''internal_error'', Some (Wrapped ''begin tx'' err)), s)
      | Inr tx \<Rightarrow>
          (case usageTx e couponMeta req discount tx of
             (r, committed, tx') \<Rightarrow> (r, if \<not> committed then Rollback tx' else tx')))"

subsection \<open>The whole call\<close>

text \<open>
  When the context is done while the item checks are awaited, the final \<open>select\<close> either
  returns the timeout or goes on with the items collected so far; \<open>BeginTx\<close> then fails on
  the done context, so the total of that path is never returned.
\<close>

definition ValidateCoupon ::
    "env \<Rightarrow> CouponService \<Rightarrow> ValidationRequest
       \<Rightarrow> (ValidationResponse \<times> error option) \<times> CouponService" where
  "ValidateCoupon e s req =
     (case loadCouponMeta e s req of
        Inl r \<Rightarrow> (r, s)
      | Inr (couponMeta, s1) \<Rightarrow>
          (case basicValidations couponMeta (now e) req of
             Some resp \<Rightarrow> ((resp, None), s1)
           | None \<Rightarrow>
               if ctxDone e \<and> \<not> collectFirst e
                 then ((reject ''timeout_during_item_checks'', Some ContextDone), s1)
               else
                 consumeUsage e couponMeta req
                   (totalDiscount couponMeta req
                      (totalItemsDiscount couponMeta (CartItems req))) s1))"

section \<open>Sequences of calls\<close>

text \<open>The committed usage count of a pair; a pair with no row has consumed nothing.\<close>

definition usageCount :: "CouponService \<Rightarrow> int \<times> string \<Rightarrow> int" where
  "usageCount s k = (case db s k of None \<Rightarrow> 0 | Some row \<Rightarrow> usage_count row)"

text \<open>The coupon a call works on, if the lookup gives one.\<close>

definition couponOf :: "env \<Rightarrow> CouponService \<Rightarrow> ValidationRequest \<Rightarrow> CouponMeta option" where
  "couponOf e s req =
     (case loadCouponMeta e s req of Inl r \<Rightarrow> None | Inr (couponMeta, s1) \<Rightarrow> Some couponMeta)"

text \<open>A call is an accepting call of the pair \<open>k\<close>.\<close>

definition accepts :: "int \<times> string \<Rightarrow> env \<Rightarrow> CouponService \<Rightarrow> ValidationRequest \<Rightarrow> bool" where
  "accepts k e s req =
     (IsValid (fst (fst (ValidateCoupon e s req))) \<and>
      (case couponOf e s req of
         None \<Rightarrow> False
       | Some couponMeta \<Rightarrow> (Coupon.ID couponMeta, UserID req) = k))"

text \<open>Calls one after the other, each on the service the one before left.\<close>

fun run :: "(env \<times> ValidationRequest) list \<Rightarrow> CouponService \<Rightarrow> CouponService" where
  "run [] s = s"
| "run ((e, req) # calls) s = run calls (snd (ValidateCoupon e s req))"

fun accepted :: "int \<times> string \<Rightarrow> (env \<times> ValidationRequest) list \<Rightarrow> CouponService \<Rightarrow> nat" where
  "accepted k [] s = 0"
| "accepted k ((e, req) # calls) s =
     (if accepts k e s req then 1 else 0) + accepted k calls (snd (ValidateCoupon e s req))"

text \<open>
  Every call of the sequence that works on coupon \<open>couponID\<close> sees a coupon with
  property \<open>P\<close> (coupons are not edited once created).
\<close>

fun couponIs ::
    "(CouponMeta \<Rightarrow> bool) \<Rightarrow> int \<Rightarrow> (env \<times> ValidationRequest) list \<Rightarrow> CouponService \<Rightarrow> bool" where
  "couponIs P couponID [] s = True"
| "couponIs P couponID ((e, req) # calls) s =
     ((case couponOf e s req of
         None \<Rightarrow> True
       | Some couponMeta \<Rightarrow> Coupon.ID couponMeta \<noteq> couponID \<or> P couponMeta) \<and>
      couponIs P couponID calls (snd (ValidateCoupon e s req)))"


section \<open>Example values\<close>

text \<open>
  A coupon on inventory, 10 percent, usable twice per user, valid in the window
  \<open>[100, 200]\<close> and expiring at \<open>300\<close>, restricted to item \<open>med1\<close> and category \<open>vitamins\<close>.
\<close>

definition exCoupon :: CouponMeta where
  "exCoupon =
     \<lparr>Coupon.ID = 1, Coupon.CouponCode = ''SAVE10'', ExpiryDate = 300,
      UsageType = ''multi_use'', MinOrderValue = 0, ValidFrom = Some 100, ValidTo = Some 200,
      DiscountType = ''percentage'', DiscountValue = 10, MaxUsagePerUser = 2,
      TargetType = ''inventory'', Terms = [], CreatedAt = 0, UpdatedAt = 0,
      ApplicableItems = [''med1''], ApplicableCategories = [''vitamins'']\<rparr>"

text \<open>
  A coupon on charges, flat 50, for orders of at least 100, with no window, no restriction
  and \<open>MaxUsagePerUser = 0\<close>.
\<close>

definition exCharges :: CouponMeta where
  "exCharges =
     \<lparr>Coupon.ID = 2, Coupon.CouponCode = ''FLAT50'', ExpiryDate = 200,
      UsageType = ''multi_use'', MinOrderValue = 100, ValidFrom = None, ValidTo = None,
      DiscountType = ''flat'', DiscountValue = 50, MaxUsagePerUser = 0,
      TargetType = ''charges'', Terms = [], CreatedAt = 0, UpdatedAt = 0,
      ApplicableItems = [], ApplicableCategories = []\<rparr>"

text \<open>A one-time coupon on charges, 5 percent, with \<open>MaxUsagePerUser = 1\<close>.\<close>

definition exOnce :: CouponMeta where
  "exOnce =
     \<lparr>Coupon.ID = 3, Coupon.CouponCode = ''ONCE'', ExpiryDate = 200,
      UsageType = ''one_time'', MinOrderValue = 0, ValidFrom = None, ValidTo = None,
      DiscountType = ''percentage'', DiscountValue = 5, MaxUsagePerUser = 1,
      TargetType = ''charges'', Terms = [], CreatedAt = 0, UpdatedAt = 0,
      ApplicableItems = [], ApplicableCategories = []\<rparr>"

text \<open>An environment at time \<open>t\<close> in which nothing fails and the three coupons are stored.\<close>

definition exEnv :: "time \<Rightarrow> env" where
  "exEnv t =
     \<lparr>couponRepo = (\<lambda>code. if code = ''SAVE10'' then Inr (Some exCoupon)
                            else if code = ''FLAT50'' then Inr (Some exCharges)
                            else if code = ''ONCE'' then Inr (Some exOnce)
                            else Inr None),
      now = t, ctxDone = False, collectFirst = False, beginErr = None, selectErr = None,
      insertErr = None, updateErr = None, commitErr = None, dbNow = t, updateNow = t\<rparr>"

text \<open>A service that has cached nothing and recorded no usage.\<close>

definition exService :: CouponService where
  "exService = \<lparr>cache = Map.empty, db = Map.empty, openTx = None, sent = []\<rparr>"

text \<open>A service that has cached nothing, where user \<open>u1\<close> has used coupon \<open>c\<close> \<open>n\<close> times.\<close>

definition exUsed :: "int \<Rightarrow> int \<Rightarrow> CouponService" where
  "exUsed c n =
     \<lparr>cache = Map.empty, db = [(c, ''u1'') \<mapsto> \<lparr>usage_count = n, last_used = 0\<rparr>],
      openTx = None, sent = []\<rparr>"

definition exItem :: "string \<Rightarrow> string \<Rightarrow> real \<Rightarrow> int \<Rightarrow> CartItem" where
  "exItem i c p q = \<lparr>CartItem.ID = i, Category = c, Price = p, Qty = q\<rparr>"

definition exRequest :: "string \<Rightarrow> CartItem list \<Rightarrow> real \<Rightarrow> ValidationRequest" where
  "exRequest code items orderTotal =
     \<lparr>UserID = ''u1'', ValidationRequest.CouponCode = code, CartItems = items,
      OrderTotal = orderTotal\<rparr>"

text \<open>Three calls of user \<open>u1\<close> with the same coupon code, one after the other.\<close>

definition exCalls :: "string \<Rightarrow> (env \<times> ValidationRequest) list" where
  "exCalls code =
     [(exEnv 150, exRequest code [] 500), (exEnv 160, exRequest code [] 500),
      (exEnv 170, exRequest code [] 500)]"

section \<open>Auxiliary lemmas\<close>

subsection \<open>Membership maps and the item total\<close>

lemma map_of_fold_update:
  "map_of (fold (\<lambda>id m. AList.update id True m) ids acc) k =
     (if k \<in> set ids then Some True else map_of acc k)"
  by (induction ids arbitrary: acc) (auto simp: update_conv')

lemma index_makeMap: "index (makeMap ids) k = (k \<in> set ids)"
  by (simp add: index_def makeMap_def map_of_fold_update)

lemma makeMap_empty: "(makeMap ids = []) = (ids = [])"
proof (cases ids)
  case Nil
  then show ?thesis by (simp add: makeMap_def)
next
  case (Cons a as)
  have "map_of (makeMap ids) a = Some True"
    using Cons by (simp add: makeMap_def map_of_fold_update)
  then have "makeMap ids \<noteq> []" by auto
  with Cons show ?thesis by simp
qed

lemma applies_iff:
  "applies couponMeta it =
     ((ApplicableItems couponMeta = [] \<and> ApplicableCategories couponMeta = []) \<or>
      CartItem.ID it \<in> set (ApplicableItems couponMeta) \<or>
      Category it \<in> set (ApplicableCategories couponMeta))"
  by (auto simp: applies_def Let_def index_makeMap makeMap_empty)

lemma fold_add_sum:
  "fold (\<lambda>it total. total + f it) xs (a::real) = a + sum_list (map f xs)"
  by (induction xs arbitrary: a) (simp_all add: add.assoc)

lemma totalItems_sum:
  "totalItemsDiscount couponMeta cartItems = sum_list (map (itemDiscount couponMeta) cartItems)"
  by (simp add: totalItemsDiscount_def fold_add_sum)

lemma sum_list_filter_zero:
  "(\<And>x. x \<in> set xs \<Longrightarrow> \<not> P x \<Longrightarrow> f x = (0::real)) \<Longrightarrow>
     sum_list (map f xs) = sum_list (map f (filter P xs))"
  by (induction xs) auto

subsection \<open>One call\<close>

lemma GetAndLockUsage_open:
  "GetAndLockUsage e tx c u = Inr p \<Longrightarrow> \<exists>view. openTx tx = Some view"
  by (cases "openTx tx") (simp_all add: GetAndLockUsage_def)

lemma GetAndLockUsage_row:
  assumes "GetAndLockUsage e tx c u = Inr (n, tx1)" and "openTx tx = Some view"
    and "view (c, u) = Some r"
  shows "n = usage_count r \<and> tx1 = tx"
  using assms by (simp add: GetAndLockUsage_def split: option.splits)

lemma GetAndLockUsage_no_row:
  assumes "GetAndLockUsage e tx c u = Inr (n, tx1)" and "openTx tx = Some view"
    and "view (c, u) = None"
  shows "n = 0 \<and>
         tx1 = tx\<lparr>openTx := Some (view((c, u) \<mapsto> \<lparr>usage_count = 0, last_used = dbNow e\<rparr>))\<rparr>"
  using assms by (simp add: GetAndLockUsage_def split: option.splits)

lemma GetAndLockUsage_view:
  assumes "GetAndLockUsage e tx c u = Inr (n, tx1)"
  shows "\<exists>view view1 row. openTx tx = Some view \<and> openTx tx1 = Some view1 \<and>
           n = (case view (c, u) of None \<Rightarrow> 0 | Some r \<Rightarrow> usage_count r) \<and>
           view1 (c, u) = Some row \<and> usage_count row = n \<and>
           (\<forall>k. k \<noteq> (c, u) \<longrightarrow> view1 k = view k) \<and>
           db tx1 = db tx \<and> cache tx1 = cache tx \<and> sent tx1 = sent tx"
proof -
  from GetAndLockUsage_open[OF assms] obtain view where v: "openTx tx = Some view" by blast
  show ?thesis
  proof (cases "view (c, u)")
    case None
    from GetAndLockUsage_no_row[OF assms v None] have n: "n = 0"
      and t: "tx1 = tx\<lparr>openTx := Some (view((c, u) \<mapsto>
                \<lparr>usage_count = 0, last_used = dbNow e\<rparr>))\<rparr>" by simp_all
    let ?v1 = "view((c, u) \<mapsto> \<lparr>usage_count = 0, last_used = dbNow e\<rparr>)"
    have "openTx tx = Some view \<and> openTx tx1 = Some ?v1 \<and>
           n = (case view (c, u) of None \<Rightarrow> 0 | Some r \<Rightarrow> usage_count r) \<and>
           ?v1 (c, u) = Some \<lparr>usage_count = 0, last_used = dbNow e\<rparr> \<and>
           usage_count \<lparr>usage_count = 0, last_used = dbNow e\<rparr> = n \<and>
           (\<forall>k. k \<noteq> (c, u) \<longrightarrow> ?v1 k = view k) \<and>
           db tx1 = db tx \<and> cache tx1 = cache tx \<and> sent tx1 = sent tx"
      using v None n t by simp
    then show ?thesis by blast
  next
    case (Some r)
    from GetAndLockUsage_row[OF assms v Some] have n: "n = usage_count r" and t: "tx1 = tx"
      by simp_all
    have "openTx tx = Some view \<and> openTx tx1 = Some view \<and>
           n = (case view (c, u) of None \<Rightarrow> 0 | Some r \<Rightarrow> usage_count r) \<and>
           view (c, u) = Some r \<and> usage_count r = n \<and>
           (\<forall>k. k \<noteq> (c, u) \<longrightarrow> view k = view k) \<and>
           db tx1 = db tx \<and> cache tx1 = cache tx \<and> sent tx1 = sent tx"
      using v Some n t by simp
    then show ?thesis by blast
  qed
qed

lemma IncrementUsage_row:
  assumes "IncrementUsage e tx1 c u = Inr tx2" and "openTx tx1 = Some view1"
    and "view1 (c, u) = Some row"
  shows "tx2 = tx1\<lparr>openTx := Some (view1((c, u) \<mapsto>
            row\<lparr>usage_count := usage_count row + 1, last_used := updateNow e\<rparr>))\<rparr>"
  using assms by (simp add: IncrementUsage_def split: option.splits)

lemma IncrementUsage_view:
  assumes "IncrementUsage e tx1 c u = Inr tx2" and "openTx tx1 = Some view1"
    and "view1 (c, u) = Some row"
  shows "\<exists>view2 row2. openTx tx2 = Some view2 \<and> view2 (c, u) = Some row2 \<and>
           usage_count row2 = usage_count row + 1 \<and>
           (\<forall>k. k \<noteq> (c, u) \<longrightarrow> view2 k = view1 k) \<and>
           db tx2 = db tx1 \<and> cache tx2 = cache tx1 \<and> sent tx2 = sent tx1"
proof -
  let ?r2 = "row\<lparr>usage_count := usage_count row + 1, last_used := updateNow e\<rparr>"
  let ?v2 = "view1((c, u) \<mapsto> ?r2)"
  from IncrementUsage_row[OF assms] have t: "tx2 = tx1\<lparr>openTx := Some ?v2\<rparr>" .
  have "openTx tx2 = Some ?v2 \<and> ?v2 (c, u) = Some ?r2 \<and>
           usage_count ?r2 = usage_count row + 1 \<and>
           (\<forall>k. k \<noteq> (c, u) \<longrightarrow> ?v2 k = view1 k) \<and>
           db tx2 = db tx1 \<and> cache tx2 = cache tx1 \<and> sent tx2 = sent tx1"
    using t by simp
  then show ?thesis by blast
qed

lemma BeginTx_opened:
  "BeginTx e s = Inr tx \<Longrightarrow>
     \<not> ctxDone e \<and> beginErr e = None \<and>
     tx = s\<lparr>openTx := Some (db s), sent := sent s @ [BEGIN]\<rparr>"
  by (auto simp: BeginTx_def split: if_splits option.splits)

lemma usageTx_proceeds:
  assumes "GetAndLockUsage e tx (Coupon.ID m) (UserID req) = Inr (n, tx1)"
    and "\<not> (UsageType m = ''one_time'' \<and> n \<ge> 1)"
    and "\<not> (MaxUsagePerUser m > 0 \<and> n \<ge> MaxUsagePerUser m)"
  shows "usageTx e m req d tx =
           (case IncrementUsage e tx1 (Coupon.ID m) (UserID req) of
              Inl ie \<Rightarrow>
                ((reject ''internal_error'', Some (Wrapped ''increment usage'' ie)), False, tx1)
            | Inr tx2 \<Rightarrow>
                (case Commit e tx2 of
                   (Some ce, tx3) \<Rightarrow>
                     ((reject ''internal_error'', Some (Wrapped ''tx commit'' ce)), False, tx3)
                 | (None, tx3) \<Rightarrow>
                     ((\<lparr>IsValid = True, Discount = d, Message = ''coupon_applied''\<rparr>, None),
                      True, tx3)))"
  using assms by (auto simp: usageTx_def)

lemma Commit_ok:
  "openTx tx = Some view \<Longrightarrow> commitErr e = None \<Longrightarrow>
     Commit e tx = (None, tx\<lparr>db := view, openTx := None, sent := sent tx @ [COMMIT]\<rparr>)"
  by (simp add: Commit_def)

lemma Commit_context_done:
  "openTx tx = Some view \<Longrightarrow> commitErr e = Some ContextDone \<Longrightarrow>
     Commit e tx = (Some ContextDone, tx)"
  by (simp add: Commit_def)

lemma Commit_failed:
  "openTx tx = Some view \<Longrightarrow> commitErr e = Some ce \<Longrightarrow> ce \<noteq> ContextDone \<Longrightarrow>
     Commit e tx = (Some ce, tx\<lparr>openTx := None, sent := sent tx @ [COMMIT]\<rparr>)"
  by (simp add: Commit_def)

lemma usageTx_lock_failed:
  "GetAndLockUsage e tx (Coupon.ID m) (UserID req) = Inl ge \<Longrightarrow>
     usageTx e m req d tx =
       ((reject ''internal_error'', Some (Wrapped ''get lock'' ge)), False, tx)"
  by (simp add: usageTx_def)

lemma usageTx_gate_rejects:
  assumes "GetAndLockUsage e tx (Coupon.ID m) (UserID req) = Inr (n, tx1)"
    and "(UsageType m = ''one_time'' \<and> n \<ge> 1) \<or>
         (MaxUsagePerUser m > 0 \<and> n \<ge> MaxUsagePerUser m)"
  shows "usageTx e m req d tx =
           ((reject (if UsageType m = ''one_time'' \<and> n \<ge> 1 then ''coupon_already_used''
                     else ''usage_limit_reached''), None), False, tx1)"
  using assms by (auto simp: usageTx_def)

text \<open>
  The statements of the transaction never touch the committed table before \<open>Commit\<close>, and
  leave the transaction open unless \<open>COMMIT\<close> was sent.
\<close>

lemma usageTx_exits:
  assumes "usageTx e m req d tx = ((resp, err), committed, tx')"
    and "openTx tx = Some view"
  shows "cache tx' = cache tx \<and>
         ((\<not> IsValid resp \<and> \<not> committed \<and> db tx' = db tx \<and> sent tx' = sent tx \<and>
           openTx tx' \<noteq> None) \<or>
          (\<not> IsValid resp \<and> \<not> committed \<and> db tx' = db tx \<and>
           sent tx' = sent tx @ [COMMIT] \<and> openTx tx' = None \<and>
           Message resp = ''internal_error'' \<and>
           (\<exists>ce. commitErr e = Some ce \<and> ce \<noteq> ContextDone \<and>
                 err = Some (Wrapped ''tx commit'' ce))) \<or>
          (IsValid resp \<and> committed \<and> err = None \<and> commitErr e = None \<and>
           sent tx' = sent tx @ [COMMIT] \<and> openTx tx' = None))"
proof (cases "GetAndLockUsage e tx (Coupon.ID m) (UserID req)")
  case (Inl ge)
  from assms(1) usageTx_lock_failed[OF Inl, of d] assms(2) show ?thesis
    by (auto simp: reject_def)
next
  case (Inr p)
  then obtain n tx1 where g: "GetAndLockUsage e tx (Coupon.ID m) (UserID req) = Inr (n, tx1)"
    by (cases p) auto
  from GetAndLockUsage_view[OF g] obtain view1 row where
    v1: "openTx tx1 = Some view1" "view1 (Coupon.ID m, UserID req) = Some row"
      "db tx1 = db tx" "cache tx1 = cache tx" "sent tx1 = sent tx" by blast
  show ?thesis
  proof (cases "(UsageType m = ''one_time'' \<and> n \<ge> 1) \<or>
                (MaxUsagePerUser m > 0 \<and> n \<ge> MaxUsagePerUser m)")
    case True
    from assms(1) usageTx_gate_rejects[OF g True, of d] v1 show ?thesis
      by (auto simp: reject_def)
  next
    case False
    then have gates: "\<not> (UsageType m = ''one_time'' \<and> n \<ge> 1)"
      "\<not> (MaxUsagePerUser m > 0 \<and> n \<ge> MaxUsagePerUser m)" by simp_all
    note pr = usageTx_proceeds[OF g gates, of d]
    show ?thesis
    proof (cases "IncrementUsage e tx1 (Coupon.ID m) (UserID req)")
      case (Inl ie)
      from assms(1) pr Inl v1 show ?thesis by (auto simp: reject_def)
    next
      case (Inr tx2)
      from IncrementUsage_view[OF Inr v1(1,2)] obtain view2 where
        v2: "openTx tx2 = Some view2" "db tx2 = db tx1" "cache tx2 = cache tx1"
          "sent tx2 = sent tx1" by blast
      show ?thesis
      proof (cases "commitErr e")
        case None
        from assms(1) pr Inr Commit_ok[OF v2(1) None] v1 v2 None show ?thesis by auto
      next
        case (Some ce)
        show ?thesis
        proof (cases "ce = ContextDone")
          case True
          with Some have "commitErr e = Some ContextDone" by simp
          from assms(1) pr Inr Commit_context_done[OF v2(1) this] v1 v2 show ?thesis
            by (auto simp: reject_def)
        next
          case False
          from assms(1) pr Inr Commit_failed[OF v2(1) Some False] v1 v2 Some False show ?thesis
            by (auto simp: reject_def)
        qed
      qed
    qed
  qed
qed

lemma GetAndLockUsage_ok:
  "openTx tx = Some view \<Longrightarrow> selectErr e = None \<Longrightarrow> insertErr e = None \<Longrightarrow>
     \<exists>tx1. GetAndLockUsage e tx c u =
       Inr (case view (c, u) of None \<Rightarrow> 0 | Some row \<Rightarrow> usage_count row, tx1)"
  by (auto simp: GetAndLockUsage_def split: option.splits)

lemma usageTx_gates:
  assumes "GetAndLockUsage e tx (Coupon.ID m) (UserID req) = Inr (n, tx1)"
    and "usageTx e m req d tx = ((resp, err), committed, s')"
  shows "(Message resp = ''coupon_already_used'' \<longleftrightarrow> UsageType m = ''one_time'' \<and> n \<ge> 1) \<and>
         (Message resp = ''usage_limit_reached'' \<longleftrightarrow>
            \<not> (UsageType m = ''one_time'' \<and> n \<ge> 1) \<and>
            MaxUsagePerUser m > 0 \<and> n \<ge> MaxUsagePerUser m)"
  using assms
  by (auto simp: usageTx_def reject_def split: sum.splits if_splits option.splits prod.splits)

text \<open>After the gates: accepted when neither statement fails, \<open>internal_error\<close> otherwise.\<close>

lemma usageTx_proceeds_result:
  assumes "GetAndLockUsage e tx (Coupon.ID m) (UserID req) = Inr (n, tx1)"
    and "\<not> (UsageType m = ''one_time'' \<and> n \<ge> 1)"
    and "\<not> (MaxUsagePerUser m > 0 \<and> n \<ge> MaxUsagePerUser m)"
    and "usageTx e m req d tx = ((resp, err), committed, tx')"
  shows "if updateErr e = None \<and> commitErr e = None
         then IsValid resp
         else \<not> IsValid resp \<and> Message resp = ''internal_error''"
proof -
  from GetAndLockUsage_view[OF assms(1)] obtain view1 where v1: "openTx tx1 = Some view1"
    by auto
  from assms(4) usageTx_proceeds[OF assms(1,2,3), of d] v1 show ?thesis
    by (auto simp: IncrementUsage_def Commit_def reject_def split: option.splits if_splits)
qed

lemma usageTx_accepted:
  assumes "usageTx e m req d tx = ((resp, err), committed, tx')" and "IsValid resp"
    and "openTx tx = Some (db s)"
  shows "resp = \<lparr>IsValid = True, Discount = d, Message = ''coupon_applied''\<rparr> \<and>
         usageCount tx' (Coupon.ID m, UserID req) = usageCount s (Coupon.ID m, UserID req) + 1 \<and>
         (\<forall>k. k \<noteq> (Coupon.ID m, UserID req) \<longrightarrow> db tx' k = db s k) \<and>
         \<not> (UsageType m = ''one_time'' \<and> usageCount s (Coupon.ID m, UserID req) \<ge> 1) \<and>
         \<not> (MaxUsagePerUser m > 0 \<and> usageCount s (Coupon.ID m, UserID req) \<ge> MaxUsagePerUser m)"
proof -
  let ?k = "(Coupon.ID m, UserID req)"
  from assms(1,2) obtain n tx1 where
    g: "GetAndLockUsage e tx (Coupon.ID m) (UserID req) = Inr (n, tx1)"
    by (auto simp: usageTx_def reject_def split: sum.splits)
  from GetAndLockUsage_view[OF g] assms(3) obtain view1 row where
    n: "n = usageCount s ?k" and v1: "openTx tx1 = Some view1" "view1 ?k = Some row"
      "usage_count row = n" and fr1: "\<forall>k. k \<noteq> ?k \<longrightarrow> view1 k = db s k"
    by (auto simp: usageCount_def)
  from assms(1,2) g have gates: "\<not> (UsageType m = ''one_time'' \<and> n \<ge> 1)"
      "\<not> (MaxUsagePerUser m > 0 \<and> n \<ge> MaxUsagePerUser m)"
    by (auto simp: usageTx_def reject_def split: if_splits)
  from assms(1,2) g gates obtain tx2 where
    i: "IncrementUsage e tx1 (Coupon.ID m) (UserID req) = Inr tx2"
    by (auto simp: usageTx_def reject_def split: sum.splits if_splits)
  from IncrementUsage_view[OF i v1(1,2)] v1(3) obtain view2 row2 where
    v2: "openTx tx2 = Some view2" "view2 ?k = Some row2" "usage_count row2 = n + 1"
      and fr2: "\<forall>k. k \<noteq> ?k \<longrightarrow> view2 k = view1 k" by auto
  from assms(1,2) g gates i v2(1) have c: "db tx' = view2"
      "resp = \<lparr>IsValid = True, Discount = d, Message = ''coupon_applied''\<rparr>"
    by (auto simp: usageTx_def reject_def Commit_def split: option.splits if_splits)
  from c(1) v2(2,3) have "usageCount tx' ?k = n + 1" by (simp add: usageCount_def)
  with n c gates fr1 fr2 show ?thesis by simp
qed

lemma consumeUsage_exits:
  assumes "consumeUsage e m req d s = ((resp, err), s')"
  shows "cache s' = cache s \<and>
         ((\<not> IsValid resp \<and> db s' = db s \<and> sent s' = sent s \<and> openTx s' = openTx s \<and>
           Message resp = ''internal_error'' \<and> (\<exists>be. err = Some (Wrapped ''begin tx'' be))) \<or>
          (\<not> IsValid resp \<and> db s' = db s \<and> sent s' = sent s @ [BEGIN, ROLLBACK] \<and>
           openTx s' = None) \<or>
          (\<not> IsValid resp \<and> db s' = db s \<and> sent s' = sent s @ [BEGIN, COMMIT] \<and>
           openTx s' = None \<and> Message resp = ''internal_error'' \<and>
           (\<exists>ce. commitErr e = Some ce \<and> ce \<noteq> ContextDone \<and>
                 err = Some (Wrapped ''tx commit'' ce))) \<or>
          (IsValid resp \<and> err = None \<and> commitErr e = None \<and>
           sent s' = sent s @ [BEGIN, COMMIT] \<and> openTx s' = None))"
proof (cases "BeginTx e s")
  case (Inl be)
  with assms show ?thesis by (auto simp: consumeUsage_def reject_def)
next
  case (Inr tx)
  from BeginTx_opened[OF Inr] have tx: "openTx tx = Some (db s)" "db tx = db s"
    "cache tx = cache s" "sent tx = sent s @ [BEGIN]" by simp_all
  from assms Inr obtain committed tx' where
    u: "usageTx e m req d tx = ((resp, err), committed, tx')"
    and s': "s' = (if \<not> committed then Rollback tx' else tx')"
    by (auto simp: consumeUsage_def split: prod.splits)
  from usageTx_exits[OF u tx(1)] tx s' show ?thesis
    by (auto simp: Rollback_def split: option.splits)
qed

lemma consumeUsage_rejected:
  "consumeUsage e m req d s = ((resp, err), s') \<Longrightarrow> \<not> IsValid resp \<Longrightarrow>
     db s' = db s \<and> cache s' = cache s"
  using consumeUsage_exits[of e m req d s resp err s'] by auto

lemma consumeUsage_accepted:
  assumes "consumeUsage e m req d s = ((resp, err), s')" and "IsValid resp"
  shows "err = None \<and> \<not> ctxDone e \<and>
         resp = \<lparr>IsValid = True, Discount = d, Message = ''coupon_applied''\<rparr> \<and>
         cache s' = cache s \<and>
         usageCount s' (Coupon.ID m, UserID req) = usageCount s (Coupon.ID m, UserID req) + 1 \<and>
         (\<forall>k. k \<noteq> (Coupon.ID m, UserID req) \<longrightarrow> db s' k = db s k) \<and>
         \<not> (UsageType m = ''one_time'' \<and> usageCount s (Coupon.ID m, UserID req) \<ge> 1) \<and>
         \<not> (MaxUsagePerUser m > 0 \<and> usageCount s (Coupon.ID m, UserID req) \<ge> MaxUsagePerUser m)"
proof -
  from assms obtain tx where b: "BeginTx e s = Inr tx"
    by (auto simp: consumeUsage_def reject_def split: sum.splits)
  from BeginTx_opened[OF b] have tx: "openTx tx = Some (db s)" "\<not> ctxDone e" by simp_all
  from assms b obtain committed tx' where
    u: "usageTx e m req d tx = ((resp, err), committed, tx')"
    and s': "s' = (if \<not> committed then Rollback tx' else tx')"
    by (auto simp: consumeUsage_def split: prod.splits)
  from usageTx_exits[OF u tx(1)] assms(2) have "committed" by auto
  with s' have "s' = tx'" by simp
  with usageTx_accepted[OF u assms(2) tx(1)] consumeUsage_exits[OF assms(1)] assms(2) tx(2)
  show ?thesis by auto
qed

lemma loadCouponMeta_db:
  "loadCouponMeta e s req = Inr (m, s1) \<Longrightarrow> db s1 = db s"
  by (auto simp: loadCouponMeta_def split: option.splits sum.splits)

lemma loadCouponMeta_usageCount:
  "loadCouponMeta e s req = Inr (m, s1) \<Longrightarrow> usageCount s1 k = usageCount s k"
  by (simp add: usageCount_def loadCouponMeta_db)

lemma basicValidations_invalid:
  "basicValidations m t req = Some resp \<Longrightarrow> \<not> IsValid resp"
  by (auto simp: basicValidations_def reject_def split: if_splits option.splits)

lemma ValidateCoupon_rejected:
  assumes "ValidateCoupon e s req = ((resp, err), s')" and "\<not> IsValid resp"
  shows "db s' = db s"
proof (cases "loadCouponMeta e s req")
  case (Inl r)
  with assms show ?thesis by (simp add: ValidateCoupon_def)
next
  case (Inr p)
  then obtain m s1 where l: "loadCouponMeta e s req = Inr (m, s1)" by (cases p) auto
  show ?thesis
  proof (cases "basicValidations m (now e) req")
    case (Some r)
    with assms l show ?thesis by (simp add: ValidateCoupon_def loadCouponMeta_db)
  next
    case None
    show ?thesis
    proof (cases "ctxDone e \<and> \<not> collectFirst e")
      case True
      with assms l None show ?thesis by (simp add: ValidateCoupon_def loadCouponMeta_db)
    next
      case False
      with assms l None have "consumeUsage e m req
          (totalDiscount m req (totalItemsDiscount m (CartItems req))) s1 = ((resp, err), s')"
        by (auto simp: ValidateCoupon_def)
      from consumeUsage_rejected[OF this assms(2)] l show ?thesis
        by (simp add: loadCouponMeta_db)
    qed
  qed
qed

lemma ValidateCoupon_accepted:
  assumes "ValidateCoupon e s req = ((resp, err), s')" and "IsValid resp"
  shows "\<exists>m s1. loadCouponMeta e s req = Inr (m, s1) \<and>
           basicValidations m (now e) req = None \<and> \<not> ctxDone e \<and>
           consumeUsage e m req (totalDiscount m req (totalItemsDiscount m (CartItems req))) s1
             = ((resp, err), s')"
proof (cases "loadCouponMeta e s req")
  case (Inl r)
  with assms show ?thesis
    by (auto simp: ValidateCoupon_def loadCouponMeta_def reject_def split: option.splits sum.splits)
next
  case (Inr p)
  then obtain m s1 where l: "loadCouponMeta e s req = Inr (m, s1)" by (cases p) auto
  show ?thesis
  proof (cases "basicValidations m (now e) req")
    case (Some r)
    with assms l basicValidations_invalid[OF Some] show ?thesis by (simp add: ValidateCoupon_def)
  next
    case None
    show ?thesis
    proof (cases "ctxDone e \<and> \<not> collectFirst e")
      case True
      with assms l None show ?thesis by (auto simp: ValidateCoupon_def reject_def)
    next
      case False
      with assms l None have c: "consumeUsage e m req
          (totalDiscount m req (totalItemsDiscount m (CartItems req))) s1 = ((resp, err), s')"
        by (auto simp: ValidateCoupon_def)
      from consumeUsage_accepted[OF c assms(2)] have "\<not> ctxDone e" by simp
      with l None c show ?thesis by simp
    qed
  qed
qed


subsection \<open>The messages of a call\<close>

lemma consumeUsage_message:
  "consumeUsage e m req d s = ((resp, err), s') \<Longrightarrow>
     Message resp \<in> {''internal_error'', ''coupon_already_used'', ''usage_limit_reached'',
                      ''coupon_applied''}"
  by (auto simp: consumeUsage_def usageTx_def reject_def
      split: sum.splits if_splits option.splits prod.splits)

lemma ValidateCoupon_passed:
  assumes "loadCouponMeta e s req = Inr (m, s1)" and "basicValidations m (now e) req = None"
  shows "ValidateCoupon e s req =
           (if ctxDone e \<and> \<not> collectFirst e
            then ((reject ''timeout_during_item_checks'', Some ContextDone), s1)
            else consumeUsage e m req
                   (totalDiscount m req (totalItemsDiscount m (CartItems req))) s1)"
  using assms by (simp add: ValidateCoupon_def)

lemma ValidateCoupon_static:
  assumes "loadCouponMeta e s req = Inr (m, s1)" and "basicValidations m (now e) req = Some r"
  shows "ValidateCoupon e s req = ((r, None), s1)"
  using assms by (simp add: ValidateCoupon_def)

lemma ValidateCoupon_passed_message:
  assumes "loadCouponMeta e s req = Inr (m, s1)" and "basicValidations m (now e) req = None"
    and "ValidateCoupon e s req = ((resp, err), s')"
  shows "Message resp \<in> {''timeout_during_item_checks'', ''internal_error'',
           ''coupon_already_used'', ''usage_limit_reached'', ''coupon_applied''}"
proof (cases "ctxDone e \<and> \<not> collectFirst e")
  case True
  with assms show ?thesis by (auto simp: ValidateCoupon_passed reject_def)
next
  case False
  with assms have "consumeUsage e m req
      (totalDiscount m req (totalItemsDiscount m (CartItems req))) s1 = ((resp, err), s')"
    by (simp add: ValidateCoupon_passed)
  from consumeUsage_message[OF this] show ?thesis by auto
qed

lemma couponOf_loaded:
  "loadCouponMeta e s req = Inr (m, s1) \<Longrightarrow> couponOf e s req = Some m"
  by (simp add: couponOf_def)

lemma couponOf_Some:
  "couponOf e s req = Some m \<Longrightarrow> \<exists>s1. loadCouponMeta e s req = Inr (m, s1)"
  by (auto simp: couponOf_def split: sum.splits)

lemma percentage_items_total:
  assumes "TargetType m = ''inventory''" and "DiscountType m = ''percentage''"
  shows "totalItemsDiscount m cartItems =
           sum_list (map (\<lambda>it. real_of_int (Qty it) * Price it * (DiscountValue m / 100))
             (filter (applies m) cartItems))"
proof -
  have "sum_list (map (itemDiscount m) cartItems) =
        sum_list (map (itemDiscount m) (filter (applies m) cartItems))"
    by (intro sum_list_filter_zero) (simp add: itemDiscount_def)
  also have "\<dots> = sum_list (map (\<lambda>it. real_of_int (Qty it) * Price it * (DiscountValue m / 100))
             (filter (applies m) cartItems))"
    by (intro arg_cong[where f = sum_list] map_cong) (simp_all add: itemDiscount_def assms)
  finally show ?thesis by (simp add: totalItems_sum)
qed

lemma ValidateCoupon_collapse:
  "ValidateCoupon e s req =
     ((fst (fst (ValidateCoupon e s req)), snd (fst (ValidateCoupon e s req))),
      snd (ValidateCoupon e s req))"
  by simp

lemma expired_message_iff:
  assumes "loadCouponMeta e s req = Inr (m, s1)"
  shows "(Message (fst (fst (ValidateCoupon e s req))) = ''coupon_expired'') =
           (ExpiryDate m < now e)"
proof (cases "basicValidations m (now e) req")
  case None
  from ValidateCoupon_passed_message[OF assms None ValidateCoupon_collapse]
  have "Message (fst (fst (ValidateCoupon e s req))) \<noteq> ''coupon_expired''" by auto
  moreover from None have "\<not> ExpiryDate m < now e"
    by (auto simp: basicValidations_def split: if_splits)
  ultimately show ?thesis by simp
next
  case (Some r)
  from ValidateCoupon_static[OF assms Some] Some show ?thesis
    by (auto simp: basicValidations_def reject_def split: if_splits option.splits)
qed

lemma consumeUsage_ok:
  assumes "\<not> ctxDone e" and "beginErr e = None" and "selectErr e = None"
    and "insertErr e = None" and "updateErr e = None" and "commitErr e = None"
    and "\<not> (UsageType m = ''one_time'' \<and> usageCount s (Coupon.ID m, UserID req) \<ge> 1)"
    and "\<not> (MaxUsagePerUser m > 0 \<and>
            usageCount s (Coupon.ID m, UserID req) \<ge> MaxUsagePerUser m)"
  shows "IsValid (fst (fst (consumeUsage e m req d s)))"
proof -
  let ?tx = "s\<lparr>openTx := Some (db s), sent := sent s @ [BEGIN]\<rparr>"
  from assms(1,2) have b: "BeginTx e s = Inr ?tx" by (simp add: BeginTx_def)
  have "openTx ?tx = Some (db s)" by simp
  from GetAndLockUsage_ok[OF this assms(3,4), of "Coupon.ID m" "UserID req"] obtain tx1 where
    g: "GetAndLockUsage e ?tx (Coupon.ID m) (UserID req) =
          Inr (usageCount s (Coupon.ID m, UserID req), tx1)"
    by (auto simp: usageCount_def)
  obtain resp err committed tx' where
    u: "usageTx e m req d ?tx = ((resp, err), committed, tx')"
    by (metis prod.exhaust)
  from usageTx_proceeds_result[OF g assms(7,8) u] assms(5,6) have "IsValid resp" by simp
  with b u show ?thesis by (simp add: consumeUsage_def)
qed

lemma consumeUsage_collapse:
  "consumeUsage e m req d s =
     ((fst (fst (consumeUsage e m req d s)), snd (fst (consumeUsage e m req d s))),
      snd (consumeUsage e m req d s))"
  by simp



subsection \<open>Sequences of calls\<close>

lemma step_count:
  "usageCount (snd (ValidateCoupon e s req)) k =
     usageCount s k + (if accepts k e s req then 1 else 0)"
proof (cases "IsValid (fst (fst (ValidateCoupon e s req)))")
  case False
  from ValidateCoupon_rejected[OF ValidateCoupon_collapse False]
  have "usageCount (snd (ValidateCoupon e s req)) k = usageCount s k"
    by (simp add: usageCount_def)
  with False show ?thesis by (simp add: accepts_def)
next
  case True
  from ValidateCoupon_accepted[OF ValidateCoupon_collapse True] obtain m s1 where
    l: "loadCouponMeta e s req = Inr (m, s1)" and
    c: "consumeUsage e m req (totalDiscount m req (totalItemsDiscount m (CartItems req))) s1
          = ((fst (fst (ValidateCoupon e s req)), snd (fst (ValidateCoupon e s req))),
             snd (ValidateCoupon e s req))" by blast
  note a = consumeUsage_accepted[OF c True]
  have acc: "accepts k e s req = ((Coupon.ID m, UserID req) = k)"
    using True couponOf_loaded[OF l] by (simp add: accepts_def)
  show ?thesis
  proof (cases "(Coupon.ID m, UserID req) = k")
    case True
    with a acc loadCouponMeta_usageCount[OF l] show ?thesis by auto
  next
    case False
    from a have "\<forall>k'. k' \<noteq> (Coupon.ID m, UserID req) \<longrightarrow>
        db (snd (ValidateCoupon e s req)) k' = db s1 k'" by (elim conjE)
    with False have "db (snd (ValidateCoupon e s req)) k = db s1 k" by (metis (no_types))
    with loadCouponMeta_db[OF l] have "usageCount (snd (ValidateCoupon e s req)) k = usageCount s k"
      by (simp add: usageCount_def)
    with False acc show ?thesis by simp
  qed
qed

lemma accepts_gates:
  assumes "accepts k e s req"
  shows "\<exists>m. couponOf e s req = Some m \<and> (Coupon.ID m, UserID req) = k \<and>
           \<not> (UsageType m = ''one_time'' \<and> usageCount s k \<ge> 1) \<and>
           \<not> (MaxUsagePerUser m > 0 \<and> usageCount s k \<ge> MaxUsagePerUser m)"
proof -
  from assms have v: "IsValid (fst (fst (ValidateCoupon e s req)))" by (simp add: accepts_def)
  from ValidateCoupon_accepted[OF ValidateCoupon_collapse v] obtain m s1 where
    l: "loadCouponMeta e s req = Inr (m, s1)" and
    c: "consumeUsage e m req (totalDiscount m req (totalItemsDiscount m (CartItems req))) s1
          = ((fst (fst (ValidateCoupon e s req)), snd (fst (ValidateCoupon e s req))),
             snd (ValidateCoupon e s req))" by blast
  from assms couponOf_loaded[OF l] have k: "(Coupon.ID m, UserID req) = k"
    by (simp add: accepts_def)
  from consumeUsage_accepted[OF c v] loadCouponMeta_usageCount[OF l] k couponOf_loaded[OF l]
  show ?thesis by auto
qed

lemma run_append: "run (calls @ later) s = run later (run calls s)"
  by (induction calls arbitrary: s) auto

lemma run_count:
  "usageCount (run calls s) k = usageCount s k + int (accepted k calls s)"
proof (induction calls arbitrary: s)
  case Nil
  show ?case by simp
next
  case (Cons c calls)
  obtain e req where c: "c = (e, req)" by (cases c)
  show ?case unfolding c by (simp add: Cons.IH step_count)
qed

lemma run_bounded:
  assumes "couponIs P couponID calls s"
    and "\<And>m c. P m \<Longrightarrow> Coupon.ID m = couponID \<Longrightarrow>
           \<not> (UsageType m = ''one_time'' \<and> c \<ge> 1) \<Longrightarrow>
           \<not> (MaxUsagePerUser m > 0 \<and> c \<ge> MaxUsagePerUser m) \<Longrightarrow> c < n"
  shows "usageCount (run calls s) (couponID, userID) \<le> max n (usageCount s (couponID, userID))"
  using assms(1)
proof (induction calls arbitrary: s)
  case Nil
  show ?case by simp
next
  case (Cons c calls)
  obtain e req where c: "c = (e, req)" by (cases c)
  let ?k = "(couponID, userID)"
  let ?s = "snd (ValidateCoupon e s req)"
  from Cons.prems c have rest: "couponIs P couponID calls ?s" by simp
  from Cons.IH[OF rest] have ih: "usageCount (run calls ?s) ?k \<le> max n (usageCount ?s ?k)" .
  show ?case
  proof (cases "accepts ?k e s req")
    case False
    with ih show ?thesis unfolding c by (simp add: step_count)
  next
    case True
    from accepts_gates[OF True] obtain m where m: "couponOf e s req = Some m"
      "Coupon.ID m = couponID"
      "\<not> (UsageType m = ''one_time'' \<and> usageCount s ?k \<ge> 1)"
      "\<not> (MaxUsagePerUser m > 0 \<and> usageCount s ?k \<ge> MaxUsagePerUser m)" by auto
    from Cons.prems c m(1,2) have "P m" by simp
    from assms(2)[OF this m(2,3,4)] have "usageCount s ?k < n" .
    with True have "usageCount ?s ?k \<le> n" by (simp add: step_count)
    with ih show ?thesis unfolding c by simp
  qed
qed

subsection \<open>Evaluating the examples\<close>

lemmas example_defs =
  exEnv_def exService_def exUsed_def exCoupon_def exCharges_def exOnce_def exRequest_def
  exItem_def

lemmas call_defs =
  ValidateCoupon_def loadCouponMeta_def basicValidations_def consumeUsage_def usageTx_def
  BeginTx_def Commit_def Rollback_def GetAndLockUsage_def IncrementUsage_def
  totalDiscount_def totalItemsDiscount_def itemDiscount_def applies_def makeMap_def
  index_def reject_def

lemma exCoupon_loaded:
  "loadCouponMeta (exEnv t) exService (exRequest ''SAVE10'' items orderTotal) =
     Inr (exCoupon, exService\<lparr>cache := [''SAVE10'' \<mapsto> exCoupon]\<rparr>)"
  by (simp add: loadCouponMeta_def exEnv_def exService_def exRequest_def)

lemma exCharges_loaded:
  "loadCouponMeta (exEnv t) exService (exRequest ''FLAT50'' items orderTotal) =
     Inr (exCharges, exService\<lparr>cache := [''FLAT50'' \<mapsto> exCharges]\<rparr>)"
  by (simp add: loadCouponMeta_def exEnv_def exService_def exRequest_def)

lemma exUsed_loaded:
  "loadCouponMeta (exEnv t) (exUsed c n) (exRequest ''SAVE10'' items orderTotal) =
     Inr (exCoupon, (exUsed c n)\<lparr>cache := [''SAVE10'' \<mapsto> exCoupon]\<rparr>)"
  "loadCouponMeta (exEnv t) (exUsed c n) (exRequest ''FLAT50'' items orderTotal) =
     Inr (exCharges, (exUsed c n)\<lparr>cache := [''FLAT50'' \<mapsto> exCharges]\<rparr>)"
  "loadCouponMeta (exEnv t) (exUsed c n) (exRequest ''ONCE'' items orderTotal) =
     Inr (exOnce, (exUsed c n)\<lparr>cache := [''ONCE'' \<mapsto> exOnce]\<rparr>)"
  by (simp_all add: loadCouponMeta_def exEnv_def exUsed_def exRequest_def)

lemma exUsed_begin:
  "BeginTx (exEnv t) ((exUsed k n)\<lparr>cache := ch\<rparr>) =
     Inr ((exUsed k n)\<lparr>cache := ch, openTx := Some (db (exUsed k n)), sent := [BEGIN]\<rparr>)"
  by (simp add: BeginTx_def exEnv_def exUsed_def)

lemma exUsed_lock:
  "GetAndLockUsage (exEnv t)
     ((exUsed 3 n)\<lparr>cache := ch, openTx := Some (db (exUsed 3 n)), sent := [BEGIN]\<rparr>)
     (Coupon.ID exOnce) (UserID (exRequest ''ONCE'' items orderTotal)) =
     Inr (n, (exUsed 3 n)\<lparr>cache := ch, openTx := Some (db (exUsed 3 n)), sent := [BEGIN]\<rparr>)"
  "GetAndLockUsage (exEnv t)
     ((exUsed 1 n)\<lparr>cache := ch, openTx := Some (db (exUsed 1 n)), sent := [BEGIN]\<rparr>)
     (Coupon.ID exCoupon) (UserID (exRequest ''SAVE10'' items orderTotal)) =
     Inr (n, (exUsed 1 n)\<lparr>cache := ch, openTx := Some (db (exUsed 1 n)), sent := [BEGIN]\<rparr>)"
  "GetAndLockUsage (exEnv t)
     ((exUsed 2 n)\<lparr>cache := ch, openTx := Some (db (exUsed 2 n)), sent := [BEGIN]\<rparr>)
     (Coupon.ID exCharges) (UserID (exRequest ''FLAT50'' items orderTotal)) =
     Inr (n, (exUsed 2 n)\<lparr>cache := ch, openTx := Some (db (exUsed 2 n)), sent := [BEGIN]\<rparr>)"
  by (simp_all add: GetAndLockUsage_def example_defs)

lemma ex_basic:
  "basicValidations exOnce (now (exEnv 150)) (exRequest ''ONCE'' items 500) = None"
  "basicValidations exCoupon (now (exEnv 150)) (exRequest ''SAVE10'' items 500) = None"
  "basicValidations exCharges (now (exEnv 150)) (exRequest ''FLAT50'' items 500) = None"
  by (simp_all add: basicValidations_def example_defs)

lemma ex_ctx: "\<not> ctxDone (exEnv t)"
  by (simp add: exEnv_def)

lemma ex_run:
  "couponIs (\<lambda>m. MaxUsagePerUser m = 2) 1 (exCalls ''SAVE10'') exService"
  "accepted (1, ''u1'') (exCalls ''SAVE10'') exService = 2"
  "couponIs (\<lambda>m. UsageType m = ''one_time'') 3 (exCalls ''ONCE'') exService"
  "accepted (3, ''u1'') (exCalls ''ONCE'') exService = 1"
  by (simp_all add: exCalls_def accepts_def couponOf_def call_defs example_defs)

section \<open>Item applicability (C7)\<close>

text \<open>
  C7. For every cart item the worker deems the item applicable if and only if the coupon's
  applicable-item list and applicable-category list are both empty, or the item's ID is in
  the item list, or the item's category is in the category list. An item that is not
  applicable contributes 0, so the item total is the sum of the contributions of the
  applicable items only.
\<close>

theorem applicability_rule:
  "(applies couponMeta it \<longleftrightarrow>
      (ApplicableItems couponMeta = [] \<and> ApplicableCategories couponMeta = []) \<or>
      CartItem.ID it \<in> set (ApplicableItems couponMeta) \<or>
      Category it \<in> set (ApplicableCategories couponMeta)) \<and>
   (\<not> applies couponMeta it \<longrightarrow> itemDiscount couponMeta it = 0) \<and>
   totalItemsDiscount couponMeta cartItems =
     sum_list (map (itemDiscount couponMeta) (filter (applies couponMeta) cartItems))"
proof -
  have "\<And>x. \<not> applies couponMeta x \<Longrightarrow> itemDiscount couponMeta x = 0"
    by (simp add: itemDiscount_def)
  then have "sum_list (map (itemDiscount couponMeta) cartItems) =
      sum_list (map (itemDiscount couponMeta) (filter (applies couponMeta) cartItems))"
    by (intro sum_list_filter_zero) simp
  then show ?thesis
    by (simp add: applies_iff totalItems_sum itemDiscount_def)
qed

text \<open>
  At the example coupon (item \<open>med1\<close>, category \<open>vitamins\<close>): an item applies by its ID,
  one by its category, a third does not apply and contributes nothing; with no
  restriction every item applies.
\<close>

theorem applicability_rule_witness:
  "applies exCoupon (exItem ''med1'' ''syrups'' 100 2) \<and>
   applies exCoupon (exItem ''med7'' ''vitamins'' 30 1) \<and>
   \<not> applies exCoupon (exItem ''med9'' ''syrups'' 40 5) \<and>
   itemDiscount exCoupon (exItem ''med9'' ''syrups'' 40 5) = 0 \<and>
   applies exCharges (exItem ''med9'' ''syrups'' 40 5) \<and>
   totalItemsDiscount exCoupon
     [exItem ''med1'' ''syrups'' 100 2, exItem ''med9'' ''syrups'' 40 5,
      exItem ''med7'' ''vitamins'' 30 1] = 23"
  using applicability_rule [of exCoupon "exItem ''med1'' ''syrups'' 100 2" "[]"]
    applicability_rule [of exCoupon "exItem ''med7'' ''vitamins'' 30 1" "[]"]
    applicability_rule [of exCharges "exItem ''med9'' ''syrups'' 40 5" "[]"]
    applicability_rule [of exCoupon "exItem ''med9'' ''syrups'' 40 5"
      "[exItem ''med1'' ''syrups'' 100 2, exItem ''med9'' ''syrups'' 40 5,
        exItem ''med7'' ''vitamins'' 30 1]"]
  by (simp add: exCoupon_def exCharges_def exItem_def itemDiscount_def)

section \<open>Worker count (C8)\<close>

text \<open>
  For a cart that is not empty the number of workers is \<open>min 4 (max 1 (len cartItems))\<close>.
\<close>

lemma workerCount_nonempty:
  "cartItems \<noteq> [] \<Longrightarrow> workerCount cartItems = min 4 (max 1 (int (length cartItems)))"
  by (cases cartItems) (auto simp: workerCount_def Let_def)

text \<open>
  C8. The number of workers is \<open>min 4 (max 1 (len cartItems))\<close>, so 1 for the empty cart.
  The code spawns 4 workers for the empty cart: the branch that sets the count to 1 is
  inside the guard \<open>len(req.CartItems) > 0\<close> and is never taken.
\<close>

theorem workerCount_empty_cart:
  "workerCount [] = 4 \<and>
   workerCount [] \<noteq> min 4 (max 1 (int (length ([] :: CartItem list))))"
  by (simp add: workerCount_def)

section \<open>Static checks (C5, C6)\<close>

text \<open>
  C5. Once the coupon is loaded, the static checks run in order: the call rejects with
  \<open>coupon_expired\<close> exactly when \<open>now > expiryDate\<close>; otherwise with
  \<open>min_order_value_not_met\<close> exactly when \<open>minOrderValue > orderTotal\<close>; otherwise with
  \<open>not_in_valid_window\<close> exactly when both window bounds are set and \<open>now\<close> lies outside
  the inclusive interval \<open>[validFrom, validTo]\<close>. These rejections carry no error and
  leave the usage table as it was. A coupon with only one bound set is never rejected for
  the window, and \<open>now = validFrom\<close> or \<open>now = validTo\<close> passes the window check.
\<close>

theorem static_checks_order:
  assumes "loadCouponMeta e s req = Inr (m, s1)"
    and "ValidateCoupon e s req = ((resp, err), s')"
  shows "(Message resp = ''coupon_expired'' \<longleftrightarrow> now e > ExpiryDate m) \<and>
         (Message resp = ''min_order_value_not_met'' \<longleftrightarrow>
            \<not> now e > ExpiryDate m \<and> MinOrderValue m > OrderTotal req) \<and>
         (Message resp = ''not_in_valid_window'' \<longleftrightarrow>
            \<not> now e > ExpiryDate m \<and> \<not> MinOrderValue m > OrderTotal req \<and>
            (\<exists>validFrom validTo. ValidFrom m = Some validFrom \<and> ValidTo m = Some validTo \<and>
               \<not> (validFrom \<le> now e \<and> now e \<le> validTo))) \<and>
         (Message resp \<in> {''coupon_expired'', ''min_order_value_not_met'',
                           ''not_in_valid_window''} \<longrightarrow>
            \<not> IsValid resp \<and> err = None \<and> db s' = db s) \<and>
         (ValidFrom m = None \<or> ValidTo m = None \<longrightarrow> Message resp \<noteq> ''not_in_valid_window'') \<and>
         (\<forall>validFrom validTo. ValidFrom m = Some validFrom \<and> ValidTo m = Some validTo \<and>
            validFrom \<le> validTo \<and> (now e = validFrom \<or> now e = validTo) \<longrightarrow>
            Message resp \<noteq> ''not_in_valid_window'')"
proof (cases "basicValidations m (now e) req")
  case None
  from ValidateCoupon_passed_message[OF assms(1) None assms(2)]
  have msg: "Message resp \<noteq> ''coupon_expired''" "Message resp \<noteq> ''min_order_value_not_met''"
    "Message resp \<noteq> ''not_in_valid_window''" by auto
  from None have "\<not> now e > ExpiryDate m" "\<not> MinOrderValue m > OrderTotal req"
    "\<not> (\<exists>validFrom validTo. ValidFrom m = Some validFrom \<and> ValidTo m = Some validTo \<and>
               \<not> (validFrom \<le> now e \<and> now e \<le> validTo))"
    by (auto simp: basicValidations_def split: if_splits option.splits)
  with msg show ?thesis by simp
next
  case (Some r)
  from ValidateCoupon_static[OF assms(1) Some] assms(2)
  have eq: "resp = r" "err = None" "s' = s1" by simp_all
  from assms(1) have d: "db s1 = db s" by (rule loadCouponMeta_db)
  from Some show ?thesis unfolding eq d
    by (auto simp: basicValidations_def reject_def split: if_splits option.splits)
qed

text \<open>
  The example coupon has the window \<open>[100, 200]\<close> and expires at \<open>300\<close>: the instants
  \<open>100\<close> and \<open>200\<close> pass the window, \<open>99\<close> and \<open>201\<close> do not, \<open>301\<close> is expired. The
  flat coupon asks for an order of \<open>100\<close> and has no window.
\<close>

theorem static_checks_order_witness:
  "Message (fst (fst (ValidateCoupon (exEnv 99) exService (exRequest ''SAVE10'' [] 50))))
     = ''not_in_valid_window'' \<and>
   Message (fst (fst (ValidateCoupon (exEnv 100) exService (exRequest ''SAVE10'' [] 50))))
     \<noteq> ''not_in_valid_window'' \<and>
   Message (fst (fst (ValidateCoupon (exEnv 200) exService (exRequest ''SAVE10'' [] 50))))
     \<noteq> ''not_in_valid_window'' \<and>
   Message (fst (fst (ValidateCoupon (exEnv 201) exService (exRequest ''SAVE10'' [] 50))))
     = ''not_in_valid_window'' \<and>
   Message (fst (fst (ValidateCoupon (exEnv 301) exService (exRequest ''SAVE10'' [] 50))))
     = ''coupon_expired'' \<and>
   Message (fst (fst (ValidateCoupon (exEnv 150) exService (exRequest ''FLAT50'' [] 50))))
     = ''min_order_value_not_met'' \<and>
   Message (fst (fst (ValidateCoupon (exEnv 150) exService (exRequest ''FLAT50'' [] 500))))
     \<noteq> ''not_in_valid_window''"
  using
    static_checks_order [OF exCoupon_loaded [of 99 "[]" 50] ValidateCoupon_collapse]
    static_checks_order [OF exCoupon_loaded [of 100 "[]" 50] ValidateCoupon_collapse]
    static_checks_order [OF exCoupon_loaded [of 200 "[]" 50] ValidateCoupon_collapse]
    static_checks_order [OF exCoupon_loaded [of 201 "[]" 50] ValidateCoupon_collapse]
    static_checks_order [OF exCoupon_loaded [of 301 "[]" 50] ValidateCoupon_collapse]
    static_checks_order [OF exCharges_loaded [of 150 "[]" 50] ValidateCoupon_collapse]
    static_checks_order [OF exCharges_loaded [of 150 "[]" 500] ValidateCoupon_collapse]
  by (simp add: example_defs)

text \<open>
  C6 as stated (at \<open>now = expiryDate\<close> the call rejects with \<open>coupon_expired\<close>) fails:
  the flat coupon expires at \<open>200\<close>, and a call at \<open>200\<close> is accepted.
\<close>

theorem expiry_boundary_counterexample:
  "now (exEnv 200) = ExpiryDate exCharges \<and>
   fst (ValidateCoupon (exEnv 200) exService (exRequest ''FLAT50'' [] 500)) =
     (\<lparr>IsValid = True, Discount = 50, Message = ''coupon_applied''\<rparr>, None)"
  by (simp add: call_defs example_defs)

text \<open>
  C6, amended. When \<open>now\<close> equals \<open>expiryDate\<close> exactly, the call does not reject with
  \<open>coupon_expired\<close>: the expiry check is \<open>ExpiryDate.Before(now)\<close>, so the boundary
  instant is still valid.
\<close>

theorem expiry_boundary_not_expired:
  assumes "loadCouponMeta e s req = Inr (m, s1)" and "now e = ExpiryDate m"
  shows "Message (fst (fst (ValidateCoupon e s req))) \<noteq> ''coupon_expired''"
  using expired_message_iff[OF assms(1)] assms(2) by simp

theorem expiry_boundary_not_expired_witness:
  "now (exEnv 200) = ExpiryDate exCharges \<and>
   Message (fst (fst (ValidateCoupon (exEnv 200) exService
     (exRequest ''FLAT50'' [exItem ''med1'' ''syrups'' 100 2] 200)))) \<noteq> ''coupon_expired''"
proof -
  have t: "now (exEnv 200) = ExpiryDate exCharges" by (simp add: example_defs)
  from expiry_boundary_not_expired [OF exCharges_loaded t] t show ?thesis by simp
qed

section \<open>Commit and rollback (C2)\<close>




section \<open>The usage gates (C4)\<close>

text \<open>
  C4. After \<open>GetAndLockUsage\<close> has returned the current count \<open>n\<close> of the pair, the call
  rejects with \<open>coupon_already_used\<close> if and only if the usage type is \<open>one_time\<close> and
  \<open>n \<ge> 1\<close> (this gate comes first); otherwise it rejects with \<open>usage_limit_reached\<close> if
  and only if \<open>MaxUsagePerUser > 0\<close> and \<open>n \<ge> MaxUsagePerUser\<close>; otherwise it increments
  and commits: when neither statement fails the call is accepted and the count is
  \<open>n + 1\<close>, and when one fails the call returns \<open>internal_error\<close> and the table is as
  before. With \<open>MaxUsagePerUser = 0\<close> and a usage type other than \<open>one_time\<close> neither gate
  rejects.
\<close>

theorem usage_gates:
  assumes "loadCouponMeta e s req = Inr (m, s1)"
    and "basicValidations m (now e) req = None"
    and "\<not> ctxDone e"
    and "BeginTx e s1 = Inr tx"
    and "GetAndLockUsage e tx (Coupon.ID m) (UserID req) = Inr (n, tx1)"
    and "ValidateCoupon e s req = ((resp, err), s')"
  shows "n = usageCount s (Coupon.ID m, UserID req) \<and>
         (Message resp = ''coupon_already_used'' \<longleftrightarrow> UsageType m = ''one_time'' \<and> n \<ge> 1) \<and>
         (Message resp = ''usage_limit_reached'' \<longleftrightarrow>
            \<not> (UsageType m = ''one_time'' \<and> n \<ge> 1) \<and>
            MaxUsagePerUser m > 0 \<and> n \<ge> MaxUsagePerUser m) \<and>
         (\<not> (UsageType m = ''one_time'' \<and> n \<ge> 1) \<and>
          \<not> (MaxUsagePerUser m > 0 \<and> n \<ge> MaxUsagePerUser m) \<longrightarrow>
            (if updateErr e = None \<and> commitErr e = None
             then IsValid resp \<and> Message resp = ''coupon_applied'' \<and>
                  usageCount s' (Coupon.ID m, UserID req) = n + 1
             else \<not> IsValid resp \<and> Message resp = ''internal_error'' \<and> db s' = db s)) \<and>
         (MaxUsagePerUser m = 0 \<and> UsageType m \<noteq> ''one_time'' \<longrightarrow>
            Message resp \<noteq> ''usage_limit_reached'' \<and> Message resp \<noteq> ''coupon_already_used'')"
proof -
  let ?k = "(Coupon.ID m, UserID req)"
  let ?d = "totalDiscount m req (totalItemsDiscount m (CartItems req))"
  from BeginTx_opened[OF assms(4)] have tx: "openTx tx = Some (db s1)" by simp
  from assms(1,2,3,6) have c: "consumeUsage e m req ?d s1 = ((resp, err), s')"
    by (simp add: ValidateCoupon_passed)
  with assms(4) obtain committed s2 where
    u: "usageTx e m req ?d tx = ((resp, err), committed, s2)"
    by (auto simp: consumeUsage_def split: prod.splits)
  from GetAndLockUsage_view[OF assms(5)] tx loadCouponMeta_usageCount[OF assms(1)]
  have n: "n = usageCount s ?k" by (auto simp: usageCount_def)
  note g = usageTx_gates[OF assms(5) u]
  have p: "if updateErr e = None \<and> commitErr e = None
             then IsValid resp \<and> Message resp = ''coupon_applied'' \<and> usageCount s' ?k = n + 1
             else \<not> IsValid resp \<and> Message resp = ''internal_error'' \<and> db s' = db s"
    if gates: "\<not> (UsageType m = ''one_time'' \<and> n \<ge> 1)"
      "\<not> (MaxUsagePerUser m > 0 \<and> n \<ge> MaxUsagePerUser m)"
  proof (cases "updateErr e = None \<and> commitErr e = None")
    case True
    with usageTx_proceeds_result[OF assms(5) gates u] have "IsValid resp" by simp
    from consumeUsage_accepted[OF c this] n loadCouponMeta_usageCount[OF assms(1)] True
    show ?thesis by simp
  next
    case False
    with usageTx_proceeds_result[OF assms(5) gates u]
    have "\<not> IsValid resp \<and> Message resp = ''internal_error''" by auto
    with ValidateCoupon_rejected[OF assms(6)] False show ?thesis by simp
  qed
  from n g p show ?thesis by auto
qed

text \<open>
  The one-time coupon used once is rejected by the first gate although its limit of 1 is
  reached too; the coupon with limit 2 is rejected at count 2 and accepted at count 1;
  the coupon with \<open>MaxUsagePerUser = 0\<close> is accepted at count 7.
\<close>

theorem usage_gates_witness:
  "Message (fst (fst (ValidateCoupon (exEnv 150) (exUsed 3 1) (exRequest ''ONCE'' [] 500))))
     = ''coupon_already_used'' \<and>
   Message (fst (fst (ValidateCoupon (exEnv 150) (exUsed 1 2) (exRequest ''SAVE10'' [] 500))))
     = ''usage_limit_reached'' \<and>
   Message (fst (fst (ValidateCoupon (exEnv 150) (exUsed 1 1) (exRequest ''SAVE10'' [] 500))))
     = ''coupon_applied'' \<and>
   usageCount (snd (ValidateCoupon (exEnv 150) (exUsed 1 1) (exRequest ''SAVE10'' [] 500)))
     (1, ''u1'') = 2 \<and>
   Message (fst (fst (ValidateCoupon (exEnv 150) (exUsed 2 7) (exRequest ''FLAT50'' [] 500))))
     = ''coupon_applied'' \<and>
   usageCount (snd (ValidateCoupon (exEnv 150) (exUsed 2 7) (exRequest ''FLAT50'' [] 500)))
     (2, ''u1'') = 8"
  using
    usage_gates [OF exUsed_loaded(3) ex_basic(1) ex_ctx exUsed_begin exUsed_lock(1)
      ValidateCoupon_collapse, of 1 "[]"]
    usage_gates [OF exUsed_loaded(1) ex_basic(2) ex_ctx exUsed_begin exUsed_lock(2)
      ValidateCoupon_collapse, of 2 "[]"]
    usage_gates [OF exUsed_loaded(1) ex_basic(2) ex_ctx exUsed_begin exUsed_lock(2)
      ValidateCoupon_collapse, of 1 "[]"]
    usage_gates [OF exUsed_loaded(2) ex_basic(3) ex_ctx exUsed_begin exUsed_lock(3)
      ValidateCoupon_collapse, of 7 "[]"]
  by (simp add: exOnce_def exCoupon_def exCharges_def exEnv_def exRequest_def)

section \<open>A cart with no applicable item (C10)\<close>

text \<open>
  C10. For an inventory coupon with a percentage and a cart in which no item is
  applicable (the empty cart included), a call that passes every other gate and meets no
  failure still consumes one usage unit and is accepted with discount 0 and message
  \<open>coupon_applied\<close>.
\<close>

theorem no_applicable_item_accepted:
  assumes "loadCouponMeta e s req = Inr (m, s1)"
    and "basicValidations m (now e) req = None"
    and "\<not> ctxDone e" and "beginErr e = None" and "selectErr e = None"
    and "insertErr e = None" and "updateErr e = None" and "commitErr e = None"
    and "\<not> (UsageType m = ''one_time'' \<and> usageCount s (Coupon.ID m, UserID req) \<ge> 1)"
    and "\<not> (MaxUsagePerUser m > 0 \<and>
            usageCount s (Coupon.ID m, UserID req) \<ge> MaxUsagePerUser m)"
    and "TargetType m = ''inventory''" and "DiscountType m = ''percentage''"
    and "\<forall>it \<in> set (CartItems req).
           \<not> ((ApplicableItems m = [] \<and> ApplicableCategories m = []) \<or>
              CartItem.ID it \<in> set (ApplicableItems m) \<or>
              Category it \<in> set (ApplicableCategories m))"
  shows "fst (ValidateCoupon e s req) =
           (\<lparr>IsValid = True, Discount = 0, Message = ''coupon_applied''\<rparr>, None) \<and>
         usageCount (snd (ValidateCoupon e s req)) (Coupon.ID m, UserID req) =
           usageCount s (Coupon.ID m, UserID req) + 1"
proof -
  let ?d = "totalDiscount m req (totalItemsDiscount m (CartItems req))"
  from assms(13) have "filter (applies m) (CartItems req) = []"
    by (auto simp: filter_empty_conv applies_iff)
  with assms(11,12) have d: "?d = 0"
    by (simp add: totalDiscount_def percentage_items_total)
  from assms(1,2,3) have v: "ValidateCoupon e s req = consumeUsage e m req ?d s1"
    by (simp add: ValidateCoupon_passed)
  from assms(9,10) loadCouponMeta_usageCount[OF assms(1)]
  have gates: "\<not> (UsageType m = ''one_time'' \<and> usageCount s1 (Coupon.ID m, UserID req) \<ge> 1)"
    "\<not> (MaxUsagePerUser m > 0 \<and>
            usageCount s1 (Coupon.ID m, UserID req) \<ge> MaxUsagePerUser m)"
    by simp_all
  from consumeUsage_ok[OF assms(3-8) gates]
  have "IsValid (fst (fst (consumeUsage e m req ?d s1)))" .
  from consumeUsage_accepted[OF consumeUsage_collapse this] d v
    loadCouponMeta_usageCount[OF assms(1)]
  show ?thesis by (simp add: prod_eq_iff)
qed

text \<open>The empty cart, and a cart whose only item is outside the coupon's restriction.\<close>

theorem no_applicable_item_accepted_witness:
  "fst (ValidateCoupon (exEnv 150) exService (exRequest ''SAVE10'' [] 50)) =
     (\<lparr>IsValid = True, Discount = 0, Message = ''coupon_applied''\<rparr>, None) \<and>
   usageCount (snd (ValidateCoupon (exEnv 150) exService (exRequest ''SAVE10'' [] 50)))
     (1, ''u1'') = 1 \<and>
   fst (ValidateCoupon (exEnv 150) exService
          (exRequest ''SAVE10'' [exItem ''med9'' ''syrups'' 40 5] 200)) =
     (\<lparr>IsValid = True, Discount = 0, Message = ''coupon_applied''\<rparr>, None) \<and>
   usageCount (snd (ValidateCoupon (exEnv 150) exService
          (exRequest ''SAVE10'' [exItem ''med9'' ''syrups'' 40 5] 200))) (1, ''u1'') = 1"
  using
    no_applicable_item_accepted [OF exCoupon_loaded, of 150 "[]" 50]
    no_applicable_item_accepted [OF exCoupon_loaded, of 150 "[exItem ''med9'' ''syrups'' 40 5]" 200]
  by (simp add: basicValidations_def usageCount_def example_defs)

section \<open>The usage count over a sequence of calls (C1)\<close>

text \<open>
  C1. For every pair \<open>(couponId, userId)\<close> and every sequence of calls, run one after the
  other: each call leaves the committed count of the pair as it was, or one higher when
  it is an accepting call of the pair; so the count after the sequence is the count
  before plus the number of accepting calls, and it never decreases as the sequence goes
  on. Starting from a count that is not negative, the number of accepting calls is at
  most \<open>maxUsagePerUser\<close> when that bound is positive, and at most 1 when the usage type
  is \<open>one_time\<close>.
\<close>

theorem usage_invariant:
  "usageCount (snd (ValidateCoupon e s req)) k =
     usageCount s k + (if accepts k e s req then 1 else 0) \<and>
   usageCount (run calls s) k = usageCount s k + int (accepted k calls s) \<and>
   usageCount (run calls s) k \<le> usageCount (run (calls @ later) s) k \<and>
   (0 < n \<and> 0 \<le> usageCount s (couponID, userID) \<and>
    couponIs (\<lambda>m. MaxUsagePerUser m = n) couponID calls s \<longrightarrow>
      int (accepted (couponID, userID) calls s) \<le> n) \<and>
   (0 \<le> usageCount s (couponID, userID) \<and>
    couponIs (\<lambda>m. UsageType m = ''one_time'') couponID calls s \<longrightarrow>
      accepted (couponID, userID) calls s \<le> 1)"
proof -
  let ?k = "(couponID, userID)"
  have mono: "usageCount (run calls s) k \<le> usageCount (run (calls @ later) s) k"
    by (simp add: run_append run_count[of later])
  have lim: "int (accepted ?k calls s) \<le> n"
    if "0 < n" "0 \<le> usageCount s ?k" "couponIs (\<lambda>m. MaxUsagePerUser m = n) couponID calls s"
  proof -
    from run_bounded[OF that(3), of n userID] that(1)
    have "usageCount (run calls s) ?k \<le> max n (usageCount s ?k)" by auto
    with that(1,2) show ?thesis by (simp add: run_count max_def split: if_splits)
  qed
  have once: "accepted ?k calls s \<le> 1"
    if "0 \<le> usageCount s ?k" "couponIs (\<lambda>m. UsageType m = ''one_time'') couponID calls s"
  proof -
    from run_bounded[OF that(2), of 1 userID]
    have "usageCount (run calls s) ?k \<le> max 1 (usageCount s ?k)" by auto
    with that(1) show ?thesis by (simp add: run_count max_def split: if_splits)
  qed
  from mono lim once show ?thesis by (simp add: step_count run_count)
qed

text \<open>
  Three calls with the coupon of limit 2 are accepted twice and leave the count 2; three
  calls with the one-time coupon are accepted once.
\<close>

theorem usage_invariant_witness:
  "couponIs (\<lambda>m. MaxUsagePerUser m = 2) 1 (exCalls ''SAVE10'') exService \<and>
   int (accepted (1, ''u1'') (exCalls ''SAVE10'') exService) \<le> 2 \<and>
   usageCount (run (exCalls ''SAVE10'') exService) (1, ''u1'') = 2 \<and>
   couponIs (\<lambda>m. UsageType m = ''one_time'') 3 (exCalls ''ONCE'') exService \<and>
   accepted (3, ''u1'') (exCalls ''ONCE'') exService \<le> 1 \<and>
   usageCount (run (exCalls ''ONCE'') exService) (3, ''u1'') = 1"
  using
    usage_invariant [of "exEnv 150" exService "exRequest ''SAVE10'' [] 500" "(1, ''u1'')"
      "exCalls ''SAVE10''" "[]" 2 1 "''u1''"]
    usage_invariant [of "exEnv 150" exService "exRequest ''ONCE'' [] 500" "(3, ''u1'')"
      "exCalls ''ONCE''" "[]" 1 3 "''u1''"]
    ex_run
  by (simp add: usageCount_def exService_def)

end
